theory Spec2Isabelle
  imports Complex_Main
begin

unbundle bit_operations_syntax

section \<open>Python and NumPy values\<close>

text \<open>
  Floating-point numbers are modelled by exact reals; the special values that NumPy
  produces where Python would raise (a quotient by zero, the root of a negative number)
  are kept apart in \<open>fval\<close>. Exceptions are values of \<open>error\<close>.
\<close>

datatype error = ZeroDivisionError | OverflowError | ValueError

datatype fval = Finite real | PosInf | NegInf | NaN

text \<open>\<^verbatim>\<open>int(x)\<close> on a float: truncation towards zero.\<close>

definition py_int :: "real \<Rightarrow> int" where
  "py_int x = (if 0 \<le> x then \<lfloor>x\<rfloor> else \<lceil>x\<rceil>)"

text \<open>\<^verbatim>\<open>np.sqrt\<close>: the root of a negative number is NaN.\<close>

definition np_sqrt :: "real \<Rightarrow> fval" where
  "np_sqrt x = (if x < 0 then NaN else Finite (sqrt x))"

section \<open>OrganoidTracker.py\<close>

subsection \<open>Configuration\<close>

definition frame_skip :: nat where
  "frame_skip = 1"

definition min_area :: real where
  "min_area = 2000"


definition start_time :: int where
  "start_time = 63882057600000000"

definition datetime_max :: int where
  "datetime_max = 315537897599999999"

subsection \<open>What OpenCV reports\<close>

text \<open>
  A contour is carried with the measurements that the OpenCV calls of \<^verbatim>\<open>process_frame\<close>
  return for it: \<^verbatim>\<open>cv2.contourArea\<close>, \<^verbatim>\<open>cv2.arcLength\<close>, the entries \<open>m00\<close>, \<open>m10\<close>, \<open>m01\<close>
  of \<^verbatim>\<open>cv2.moments\<close>, \<^verbatim>\<open>cv2.boundingRect\<close> as \<open>(x, y, w, h)\<close>, and the area of
  \<^verbatim>\<open>cv2.convexHull\<close>.
\<close>

record contour =
  contourArea :: real
  arcLength :: real
  m00 :: real
  m10 :: real
  m01 :: real
  boundingRect :: "int \<times> int \<times> int \<times> int"
  hullArea :: real

text \<open>What has been drawn on a frame: the overlay of \<^verbatim>\<open>process_frame\<close>.\<close>

datatype drawing =
    DrawContours contour
  | Circle int int
  | PutText int real int int

text \<open>
  A frame is its pixel content (opaque), the external contours that the segmentation
  (grey conversion, CLAHE, blur, Otsu threshold, opening and closing, \<^verbatim>\<open>cv2.findContours\<close>)
  finds in it, and the drawings made on it so far.
\<close>

record frame =
  pixels :: nat
  findContours :: "contour list"
  drawn :: "drawing list"

subsection \<open>The record of one frame and the accumulated state\<close>

record metric_record =
  timestamp :: int
  area :: real
  perimeter :: real
  centroid_x :: int
  centroid_y :: int
  aspect_ratio :: real
  shape_factor :: real
  solidity :: real
  extent :: real
  eccentricity :: fval

text \<open>
  The module-level lists \<^verbatim>\<open>contour_data\<close> and \<^verbatim>\<open>all_contours\<close>, and the frames written to
  the overlay video \<^verbatim>\<open>out\<close>.
\<close>

record state =
  contour_data :: "metric_record list"
  all_contours :: "(contour \<times> int) list"
  out :: "frame list"

definition init_state :: state where
  "init_state = \<lparr>contour_data = [], all_contours = [], out = []\<rparr>"

subsection \<open>\<^verbatim>\<open>process_frame\<close>\<close>

text \<open>
  \<^verbatim>\<open>max(contours, key=cv2.contourArea)\<close>: the first contour of largest area. It is only
  called on a non-empty list.
\<close>

definition max_contour :: "contour list \<Rightarrow> contour" where
  "max_contour cs =
     foldl (\<lambda>best c. if contourArea best < contourArea c then c else best) (hd cs) (tl cs)"

text \<open>
  Lines 57 to 82: the metrics of the selected contour. The quotient \<^verbatim>\<open>w / h\<close> of two
  Python integers raises \<^verbatim>\<open>ZeroDivisionError\<close> when \<open>h\<close> is zero; the other quotients
  are guarded.
\<close>

definition metrics :: "contour \<Rightarrow> int \<Rightarrow> error + metric_record" where
  "metrics cnt ts =
     (let area = contourArea cnt;
          perimeter = arcLength cnt;
          cx = (if m00 cnt \<noteq> 0 then py_int (m10 cnt / m00 cnt) else 0);
          cy = (if m00 cnt \<noteq> 0 then py_int (m01 cnt / m00 cnt) else 0);
          (x, y, w, h) = boundingRect cnt
      in if h = 0 then Inl ZeroDivisionError
         else
           let aspect_ratio = real_of_int w / real_of_int h;
               shape_factor = (if perimeter \<noteq> 0 then (4 * pi * area) / perimeter\<^sup>2 else 0);
               hull_area = hullArea cnt;
               solidity = (if hull_area \<noteq> 0 then area / hull_area else 0);
               extent = (if w * h \<noteq> 0 then area / real_of_int (w * h) else 0);
               eccentricity =
                 (if max w h \<noteq> 0
                  then np_sqrt (1 - (real_of_int (min w h) / real_of_int (max w h))\<^sup>2)
                  else Finite 0)
           in Inr \<lparr>timestamp = ts, area = area, perimeter = perimeter,
                   centroid_x = cx, centroid_y = cy, aspect_ratio = aspect_ratio,
                   shape_factor = shape_factor, solidity = solidity, extent = extent,
                   eccentricity = eccentricity\<rparr>)"

text \<open>Lines 85 to 88: the overlay drawn on a frame for which a record was made.\<close>

definition annotate :: "frame \<Rightarrow> contour \<Rightarrow> metric_record \<Rightarrow> frame" where
  "annotate fr cnt r =
     (let (x, y, w, h) = boundingRect cnt
      in fr\<lparr>drawn := drawn fr @
               [DrawContours cnt,
                Circle (centroid_x r) (centroid_y r),
                PutText (py_int (area r)) (solidity r) x (y - 100)]\<rparr>)"

text \<open>
  \<^verbatim>\<open>process_frame\<close> returns the frame, or raises; the state it leaves behind is returned
  in both cases, since the append to \<^verbatim>\<open>all_contours\<close> precedes the computation of the
  metrics.
\<close>

definition process_frame :: "frame \<Rightarrow> int \<Rightarrow> state \<Rightarrow> (error + frame) \<times> state" where
  "process_frame fr ts s =
     (let contours = findContours fr
      in if contours = [] then (Inr fr, s)
         else
           let cnt = max_contour contours
           in if contourArea cnt < min_area then (Inr fr, s)
              else
                let s1 = s\<lparr>all_contours := all_contours s @ [(cnt, ts)]\<rparr>
                in case metrics cnt ts of
                     Inl e \<Rightarrow> (Inl e, s1)
                   | Inr r \<Rightarrow>
                       (Inr (annotate fr cnt r),
                        s1\<lparr>contour_data := contour_data s1 @ [r]\<rparr>))"

subsection \<open>\<^verbatim>\<open>main\<close>: the frame loop\<close>




text \<open>
  \<^verbatim>\<open>start_time + frame_idx * frame_period\<close>: a datetime outside the years 1 to 9999
  raises \<^verbatim>\<open>OverflowError\<close>.
\<close>

definition frame_timestamp :: "int \<Rightarrow> nat \<Rightarrow> error + int" where
  "frame_timestamp period frame_idx =
     (let ts = start_time + int frame_idx * period
      in if ts < 0 \<or> datetime_max < ts then Inl OverflowError else Inr ts)"

text \<open>
  The \<^verbatim>\<open>while cap.isOpened()\<close> loop over the frames that the capture still holds. A
  frame whose index is not a multiple of \<open>frame_skip\<close> is grabbed and dropped. When
  no frame is left the read fails and the loop ends (after at most
  \<open>frame_skip - 1\<close> iterations that only advance \<open>frame_idx\<close>). The result is the
  exception raised, if any, and the state at that point.
\<close>

fun frame_loop :: "int \<Rightarrow> frame list \<Rightarrow> nat \<Rightarrow> state \<Rightarrow> error option \<times> state" where
  "frame_loop period [] frame_idx s = (None, s)"
| "frame_loop period (fr # rest) frame_idx s =
     (if frame_idx mod frame_skip \<noteq> 0 then frame_loop period rest (frame_idx + 1) s
      else
        case frame_timestamp period frame_idx of
          Inl e \<Rightarrow> (Some e, s)
        | Inr ts \<Rightarrow>
            (case process_frame fr ts s of
               (Inl e, s') \<Rightarrow> (Some e, s')
             | (Inr result_frame, s') \<Rightarrow>
                 frame_loop period rest (frame_idx + 1) (s'\<lparr>out := out s' @ [result_frame]\<rparr>)))"


section \<open>OrganoidPlotter.py\<close>

subsection \<open>Configuration\<close>

definition APPLY_ROLLING :: int where
  "APPLY_ROLLING = 1"

definition ROLLING_WINDOW :: int where
  "ROLLING_WINDOW = 50"

definition z_thresh :: real where
  "z_thresh = 3"

definition window_length :: int where
  "window_length = 10"

definition poly_order :: int where
  "poly_order = 7"

subsection \<open>Series and data frames\<close>

text \<open>
  A value of a series is a float or missing (\<open>None\<close> for NaN). A series is a list of
  labelled values, the labels being the parsed timestamps; a data frame is a list of rows,
  each a label and its cells by column name.
\<close>

type_synonym series = "(int \<times> real option) list"

type_synonym dataframe = "(int \<times> (string \<Rightarrow> real option)) list"

definition index :: "(int \<times> 'a) list \<Rightarrow> int list" where
  "index df = map fst df"

definition column :: "dataframe \<Rightarrow> string \<Rightarrow> series" where
  "column df name = map (\<lambda>(t, cells). (t, cells name)) df"

text \<open>\<^verbatim>\<open>clean_df[name] = values\<close>, the values already aligned with the index.\<close>

definition set_column :: "dataframe \<Rightarrow> string \<Rightarrow> real option list \<Rightarrow> dataframe" where
  "set_column df name vs = map (\<lambda>((t, cells), v). (t, cells(name := v))) (zip df vs)"

text \<open>\<^verbatim>\<open>series[mask]\<close>: the rows at which the mask holds.\<close>

definition select_rows :: "bool list \<Rightarrow> series \<Rightarrow> series" where
  "select_rows keep s = map snd (filter fst (zip keep s))"

text \<open>
  \<^verbatim>\<open>~((clean_df["centroid_x"] < 650) & (clean_df["centroid_y"] < 650))\<close>; a comparison
  with NaN is false.
\<close>

definition below_650 :: "real option \<Rightarrow> bool" where
  "below_650 v = (case v of None \<Rightarrow> False | Some x \<Rightarrow> x < 650)"

definition centroid_mask :: "dataframe \<Rightarrow> bool list" where
  "centroid_mask df =
     map (\<lambda>(t, cells). \<not> (below_650 (cells ''centroid_x'') \<and> below_650 (cells ''centroid_y''))) df"

subsection \<open>Outlier removal\<close>

text \<open>The samples that are present; pandas skips NaN in \<^verbatim>\<open>mean\<close> and \<^verbatim>\<open>std\<close>.\<close>

definition valid_values :: "real option list \<Rightarrow> real list" where
  "valid_values xs = List.map_filter id xs"

definition series_mean :: "real option list \<Rightarrow> real option" where
  "series_mean xs =
     (let vs = valid_values xs
      in if vs = [] then None else Some (sum_list vs / real (length vs)))"

text \<open>\<^verbatim>\<open>std(ddof=0)\<close>: the root of the mean squared deviation from the mean.\<close>

definition series_std :: "real option list \<Rightarrow> real option" where
  "series_std xs =
     (let vs = valid_values xs
      in if vs = [] then None
         else
           let avg = sum_list vs / real (length vs)
           in Some (sqrt (sum_list (map (\<lambda>v. (avg - v)\<^sup>2) vs) / real (length vs))))"

text \<open>Element-wise difference and quotient of floats; NaN propagates, and a quotient
  by zero is NaN or infinite instead of an exception.\<close>

definition np_sub :: "real option \<Rightarrow> real option \<Rightarrow> real option" where
  "np_sub a b = (case (a, b) of (Some x, Some y) \<Rightarrow> Some (x - y) | _ \<Rightarrow> None)"

definition np_div :: "real option \<Rightarrow> real option \<Rightarrow> fval" where
  "np_div a b =
     (case (a, b) of
        (Some x, Some y) \<Rightarrow>
          if y \<noteq> 0 then Finite (x / y)
          else if x = 0 then NaN
          else if 0 < x then PosInf else NegInf
      | _ \<Rightarrow> NaN)"

fun fabs :: "fval \<Rightarrow> fval" where
  "fabs (Finite x) = Finite \<bar>x\<bar>"
| "fabs PosInf = PosInf"
| "fabs NegInf = PosInf"
| "fabs NaN = NaN"

text \<open>\<^verbatim>\<open>z > t\<close>: false when \<open>z\<close> is NaN.\<close>

fun fgt :: "fval \<Rightarrow> real \<Rightarrow> bool" where
  "fgt (Finite x) t = (t < x)"
| "fgt PosInf t = True"
| "fgt NegInf t = False"
| "fgt NaN t = False"

definition z_scores :: "real option list \<Rightarrow> fval list" where
  "z_scores xs = map (\<lambda>x. np_div (np_sub x (series_mean xs)) (series_std xs)) xs"

text \<open>\<^verbatim>\<open>series.mask(cond)\<close>: NaN where the condition holds.\<close>

definition mask_where :: "real option list \<Rightarrow> bool list \<Rightarrow> real option list" where
  "mask_where xs cond = map (\<lambda>(x, c). if c then None else x) (zip xs cond)"

definition outlier_mask :: "real option list \<Rightarrow> real option list" where
  "outlier_mask xs = mask_where xs (map (\<lambda>z. fgt (fabs z) z_thresh) (z_scores xs))"

subsection \<open>Gap filling\<close>

text \<open>The distance to the next present value of a list, and that value.\<close>

fun next_valid :: "real option list \<Rightarrow> (nat \<times> real) option" where
  "next_valid [] = None"
| "next_valid (Some v # xs) = Some (0, v)"
| "next_valid (None # xs) = map_option (\<lambda>(d, v). (d + 1, v)) (next_valid xs)"

text \<open>
  \<^verbatim>\<open>Series.interpolate()\<close> with its defaults (linear on positions, forward): a run of
  NaN between two present values \<open>a\<close> and \<open>b\<close> is filled as NumPy's \<^verbatim>\<open>interp\<close> does, by
  \<open>slope * (x - x1) + a\<close>; a trailing run takes the last present value; a leading run is
  left as it is. \<open>prev\<close> is the last present value and the distance from it.
\<close>

fun interpolate_from :: "(nat \<times> real) option \<Rightarrow> real option list \<Rightarrow> real option list" where
  "interpolate_from prev [] = []"
| "interpolate_from prev (Some v # xs) = Some v # interpolate_from (Some (1, v)) xs"
| "interpolate_from None (None # xs) = None # interpolate_from None xs"
| "interpolate_from (Some (d, a)) (None # xs) =
     (case next_valid xs of
        None \<Rightarrow> Some a
      | Some (e, b) \<Rightarrow> Some ((b - a) / real (d + e + 1) * real d + a))
     # interpolate_from (Some (d + 1, a)) xs"

definition interpolate :: "real option list \<Rightarrow> real option list" where
  "interpolate xs = interpolate_from None xs"

fun bfill :: "real option list \<Rightarrow> real option list" where
  "bfill [] = []"
| "bfill (Some v # xs) = Some v # bfill xs"
| "bfill (None # xs) = (case bfill xs of [] \<Rightarrow> [None] | y # ys \<Rightarrow> y # y # ys)"

fun ffill_from :: "real option \<Rightarrow> real option list \<Rightarrow> real option list" where
  "ffill_from prev [] = []"
| "ffill_from prev (Some v # xs) = Some v # ffill_from (Some v) xs"
| "ffill_from prev (None # xs) = prev # ffill_from prev xs"

definition ffill :: "real option list \<Rightarrow> real option list" where
  "ffill xs = ffill_from None xs"

text \<open>Lines 69 and 70.\<close>

definition gap_fill :: "real option list \<Rightarrow> real option list" where
  "gap_fill xs = ffill (bfill (interpolate xs))"

subsection \<open>Smoothing\<close>

text \<open>Lines 74 to 76: the window for a series of \<open>n_points\<close> values.\<close>

definition sg_window :: "int \<Rightarrow> int" where
  "sg_window n_points =
     (let win = min window_length (if n_points mod 2 = 1 then n_points else n_points - 1)
      in if win < 5 then (if 5 \<le> n_points then 5 else n_points OR 1) else win)"

definition sg_polyorder :: "int \<Rightarrow> int" where
  "sg_polyorder win = min poly_order (win - 1)"

text \<open>
  SciPy's \<^verbatim>\<open>savgol_filter\<close> in its default mode \<^verbatim>\<open>interp\<close>. The fitted value at each
  position is a parameter \<open>sg\<close>: \<open>sg win order ys i\<close> is the output at position \<open>i\<close> for
  the values \<open>ys\<close>. The filter raises \<^verbatim>\<open>ValueError\<close> when the window is longer than the
  series or the order is not below the window; current SciPy accepts an even window. A
  series that reaches the filter is free of NaN or all NaN, and NaN input gives NaN
  output.
\<close>

type_synonym sgfit = "int \<Rightarrow> int \<Rightarrow> real list \<Rightarrow> nat \<Rightarrow> real"

definition savgol_filter :: "sgfit \<Rightarrow> real option list \<Rightarrow> int \<Rightarrow> int \<Rightarrow> error + real option list" where
  "savgol_filter sg xs win polyorder =
     (if int (length xs) < win then Inl ValueError
      else if win \<le> polyorder then Inl ValueError
      else if None \<in> set xs then Inr (replicate (length xs) None)
      else Inr (map (\<lambda>i. Some (sg win polyorder (map the xs) i)) [0..<length xs]))"

text \<open>
  \<^verbatim>\<open>rolling(window, center=True, min_periods=1).mean()\<close>: the window of position \<open>i\<close> is
  \<open>[i - window + 1 + offset, i + offset]\<close> with \<open>offset = (window - 1) // 2\<close>, cut to the
  series; the mean is taken over the values present and is NaN when there is none.
\<close>

definition rolling_window :: "int \<Rightarrow> 'a list \<Rightarrow> nat \<Rightarrow> 'a list" where
  "rolling_window window xs i =
     (let offset = (window - 1) div 2;
          stop = min (max (int i + 1 + offset) 0) (int (length xs));
          start = min (max (int i + 1 + offset - window) 0) (int (length xs))
      in drop (nat start) (take (nat stop) xs))"

definition rolling_mean :: "int \<Rightarrow> real option list \<Rightarrow> real option list" where
  "rolling_mean window xs =
     map (\<lambda>i. let vs = valid_values (rolling_window window xs i)
              in if length vs < 1 then None else Some (sum_list vs / real (length vs)))
       [0..<length xs]"

subsection \<open>Aligning to the original index\<close>

text \<open>
  \<^verbatim>\<open>Series.reindex\<close>: a series whose index is the target already is returned as it is;
  otherwise duplicate labels in the series raise \<^verbatim>\<open>ValueError\<close>, and a target label
  that the series lacks gets NaN.
\<close>

definition reindex :: "series \<Rightarrow> int list \<Rightarrow> error + real option list" where
  "reindex s target =
     (if index s = target then Inr (map snd s)
      else if \<not> distinct (index s) then Inl ValueError
      else Inr (map (\<lambda>t. case map_of s t of None \<Rightarrow> None | Some v \<Rightarrow> v) target))"

subsection \<open>The cleaning loop\<close>

text \<open>
  The series that is cleaned for a metric: its column, without the rows of the centroid
  exclusion region for the two centroid metrics (lines 57 to 62).
\<close>

definition metric_series :: "dataframe \<Rightarrow> string \<Rightarrow> series" where
  "metric_series df metric =
     (let series = column df metric
      in if metric \<in> set [''centroid_x'', ''centroid_y'']
         then select_rows (centroid_mask df) series
         else series)"

text \<open>The body of the loop for one metric (lines 57 to 90): the column it stores.\<close>

definition clean_metric :: "sgfit \<Rightarrow> dataframe \<Rightarrow> string \<Rightarrow> error + real option list" where
  "clean_metric sg df metric =
     (let series = metric_series df metric;
          series_filtered = gap_fill (outlier_mask (map snd series));
          n_points = int (length series_filtered);
          win = sg_window n_points
      in case savgol_filter sg series_filtered win (sg_polyorder win) of
           Inl e \<Rightarrow> Inl e
         | Inr sg_series \<Rightarrow>
             let smoothed =
                   (if APPLY_ROLLING \<noteq> 0 \<and> 2 \<le> ROLLING_WINDOW
                    then rolling_mean ROLLING_WINDOW sg_series
                    else sg_series)
             in reindex (zip (index series) smoothed) (index df))"

text \<open>\<^verbatim>\<open>for metric in metrics + ["centroid_x", "centroid_y"]\<close>, stopping at an exception.\<close>

fun clean_loop :: "sgfit \<Rightarrow> string list \<Rightarrow> dataframe \<Rightarrow> error + dataframe" where
  "clean_loop sg [] clean_df = Inr clean_df"
| "clean_loop sg (metric # rest) clean_df =
     (case clean_metric sg clean_df metric of
        Inl e \<Rightarrow> Inl e
      | Inr smoothed \<Rightarrow> clean_loop sg rest (set_column clean_df (metric @ ''_smooth'') smoothed))"

definition metrics_list :: "string list" where
  "metrics_list = [''area'', ''solidity'']"

definition clean :: "sgfit \<Rightarrow> dataframe \<Rightarrow> error + dataframe" where
  "clean sg df = clean_loop sg (metrics_list @ [''centroid_x'', ''centroid_y'']) df"


section \<open>Concrete inputs\<close>

text \<open>
  A contour above the area threshold with an ordinary bounding box, a contour above the
  threshold whose bounding box has height zero, frames in which they are the only
  contour, and a frame without any contour.
\<close>

definition round_contour :: contour where
  "round_contour = \<lparr>contourArea = 2500, arcLength = 180, m00 = 2500, m10 = 251250, m01 = 250000,
     boundingRect = (72, 71, 57, 58), hullArea = 2600\<rparr>"

definition round_frame :: frame where
  "round_frame = \<lparr>pixels = 1, findContours = [round_contour], drawn = []\<rparr>"



definition empty_frame :: frame where
  "empty_frame = \<lparr>pixels = 2, findContours = [], drawn = []\<rparr>"

section \<open>Notions used in the statements\<close>

text \<open>
  A present value lies between two bounds; a missing value is not constrained.
\<close>

definition in_range :: "real \<Rightarrow> real \<Rightarrow> real option \<Rightarrow> bool" where
  "in_range lo hi x = (case x of None \<Rightarrow> True | Some y \<Rightarrow> lo \<le> y \<and> y \<le> hi)"


text \<open>
  The series of the outlier test: \<open>a\<close> samples of value 10, one sample of value 10000,
  and \<open>b\<close> further samples of value 10.
\<close>

definition spike_series :: "nat \<Rightarrow> nat \<Rightarrow> real option list" where
  "spike_series a b = replicate a (Some 10) @ Some 10000 # replicate b (Some 10)"



section \<open>Properties of the tracker\<close>

subsection \<open>The selected contour\<close>

lemma max_contour_single: "max_contour [c] = c"
  by (simp add: max_contour_def)

lemma foldl_max_area:
  "foldl (\<lambda>best c. if contourArea best < contourArea c then c else best) b cs \<in> set (b # cs)
   \<and> (\<forall>c \<in> set (b # cs).
         contourArea c \<le> contourArea (foldl (\<lambda>best c. if contourArea best < contourArea c then c else best) b cs))"
proof (induction cs arbitrary: b)
  case Nil
  show ?case by simp
next
  case (Cons a cs)
  let ?f = "\<lambda>best c. if contourArea best < contourArea c then c else (best :: contour)"
  show ?case
  proof (cases "contourArea b < contourArea a")
    case True
    with Cons.IH [of a] show ?thesis by force
  next
    case False
    with Cons.IH [of b] show ?thesis by force
  qed
qed

lemma max_contour_in: "cs \<noteq> [] \<Longrightarrow> max_contour cs \<in> set cs"
  using foldl_max_area [of "hd cs" "tl cs"] by (cases cs) (auto simp: max_contour_def)

lemma max_contour_ge: "c \<in> set cs \<Longrightarrow> contourArea c \<le> contourArea (max_contour cs)"
  using foldl_max_area [of "hd cs" "tl cs"] by (cases cs) (auto simp: max_contour_def)

lemma max_contour_area: 
  assumes "cs \<noteq> []" shows "contourArea (max_contour cs) = Max (contourArea ` set cs)"
proof (rule sym, rule Max_eqI)
  show "finite (contourArea ` set cs)" by simp
  show "\<And>y. y \<in> contourArea ` set cs \<Longrightarrow> y \<le> contourArea (max_contour cs)"
    by (auto intro: max_contour_ge)
  show "contourArea (max_contour cs) \<in> contourArea ` set cs"
    using assms by (simp add: max_contour_in)
qed

subsection \<open>The three outcomes of \<^verbatim>\<open>process_frame\<close>\<close>

lemma process_frame_skip:
  assumes "findContours fr = [] \<or> contourArea (max_contour (findContours fr)) < min_area"
  shows "process_frame fr ts s = (Inr fr, s)"
  using assms by (auto simp: process_frame_def Let_def)

lemma process_frame_raise:
  assumes "findContours fr \<noteq> []" and "min_area \<le> contourArea (max_contour (findContours fr))"
    and "metrics (max_contour (findContours fr)) ts = Inl e"
  shows "process_frame fr ts s =
           (Inl e, s\<lparr>all_contours := all_contours s @ [(max_contour (findContours fr), ts)]\<rparr>)"
  using assms by (simp add: process_frame_def Let_def)

lemma process_frame_record:
  assumes "findContours fr \<noteq> []" and "min_area \<le> contourArea (max_contour (findContours fr))"
    and "metrics (max_contour (findContours fr)) ts = Inr r"
  shows "process_frame fr ts s =
           (Inr (annotate fr (max_contour (findContours fr)) r),
            s\<lparr>all_contours := all_contours s @ [(max_contour (findContours fr), ts)],
              contour_data := contour_data s @ [r]\<rparr>)"
  using assms by (simp add: process_frame_def Let_def)

lemma metrics_Inr:
  assumes "snd (snd (snd (boundingRect cnt))) \<noteq> 0"
  shows "\<exists>r. metrics cnt ts = Inr r \<and> timestamp r = ts \<and> area r = contourArea cnt
     \<and> centroid_x r = (if m00 cnt \<noteq> 0 then py_int (m10 cnt / m00 cnt) else 0)
     \<and> centroid_y r = (if m00 cnt \<noteq> 0 then py_int (m01 cnt / m00 cnt) else 0)
     \<and> solidity r = (if hullArea cnt \<noteq> 0 then contourArea cnt / hullArea cnt else 0)"
  using assms by (cases "boundingRect cnt") (simp add: metrics_def Let_def)

lemma metrics_Inl:
  assumes "snd (snd (snd (boundingRect cnt))) = 0"
  shows "metrics cnt ts = Inl ZeroDivisionError"
  using assms by (cases "boundingRect cnt") (simp add: metrics_def Let_def)

lemma metrics_guarded_fallbacks:
  assumes "metrics cnt ts = Inr r" and "boundingRect cnt = (x, y, w, h)"
  shows "(arcLength cnt = 0 \<longrightarrow> shape_factor r = 0)
       \<and> (hullArea cnt = 0 \<longrightarrow> solidity r = 0)
       \<and> (w * h = 0 \<longrightarrow> extent r = 0)
       \<and> (max w h = 0 \<longrightarrow> eccentricity r = Finite 0)"
  using assms by (auto simp: metrics_def Let_def split: if_splits)

lemma annotate_neq: "annotate fr cnt r \<noteq> fr"
proof
  assume "annotate fr cnt r = fr"
  then have "drawn (annotate fr cnt r) = drawn fr" by simp
  then show False by (simp add: annotate_def split: prod.splits)
qed

lemma record_produced:
  assumes "contour_data (snd (process_frame fr ts s)) = contour_data s @ [r]"
  shows "findContours fr \<noteq> [] \<and> min_area \<le> contourArea (max_contour (findContours fr))
       \<and> metrics (max_contour (findContours fr)) ts = Inr r"
proof -
  let ?c = "max_contour (findContours fr)"
  show ?thesis
  proof (cases "findContours fr = [] \<or> contourArea ?c < min_area")
    case True
    from process_frame_skip [OF True, of ts s] assms show ?thesis by simp
  next
    case False
    then have ne: "findContours fr \<noteq> []" and ar: "min_area \<le> contourArea ?c" by simp_all
    show ?thesis
    proof (cases "metrics ?c ts")
      case (Inl e)
      from process_frame_raise [OF ne ar Inl, of s] assms show ?thesis by simp
    next
      case (Inr r')
      from process_frame_record [OF ne ar Inr, of s] assms have "r' = r" by simp
      with ne ar Inr show ?thesis by simp
    qed
  qed
qed

lemma py_int_close: "\<bar>real_of_int (py_int x) - x\<bar> < 1"
  unfolding py_int_def by (auto; linarith)




text \<open>
  The state in the middle of the loop is the state that the loop leaves on the frames read
  so far.
\<close>

lemma frame_loop_append:
  "frame_loop period (xs @ ys) idx s =
     (case frame_loop period xs idx s of
        (Some e, s') \<Rightarrow> (Some e, s')
      | (None, s') \<Rightarrow> frame_loop period ys (idx + length xs) s')"
proof (induction xs arbitrary: idx s)
  case Nil
  show ?case by simp
next
  case (Cons fr rest)
  show ?case
  proof (cases "idx mod frame_skip \<noteq> 0")
    case True
    with Cons [of "idx + 1" s] show ?thesis by (simp split: prod.splits option.splits)
  next
    case False
    show ?thesis
    proof (cases "frame_timestamp period idx")
      case (Inl e)
      with False show ?thesis by simp
    next
      case (Inr ts)
      obtain res s' where pf: "process_frame fr ts s = (res, s')" by (cases "process_frame fr ts s")
      show ?thesis
      proof (cases res)
        case e: (Inl e)
        with False Inr pf show ?thesis by simp
      next
        case (Inr result_frame)
        with False \<open>frame_timestamp period idx = Inr ts\<close> pf
          Cons [of "idx + 1" "s'\<lparr>out := out s' @ [result_frame]\<rparr>"]
        show ?thesis by (simp split: prod.splits option.splits)
      qed
    qed
  qed
qed



subsection \<open>Degenerate geometry\<close>


subsection \<open>The centroid\<close>

text \<open>
  C5, as stated: the recorded centroid equals the quotients \<open>m10 / m00\<close> and \<open>m01 / m00\<close>.
  It does not: for the contour \<open>round_contour\<close> the quotient \<open>m10 / m00\<close> is 100.5 and the
  recorded \<open>centroid_x\<close> is 100.
\<close>

theorem centroid_not_exact_quotient:
  "real_of_int (centroid_x (hd (contour_data (snd (process_frame round_frame start_time init_state)))))
     \<noteq> m10 round_contour / m00 round_contour"
  by (simp add: process_frame_def round_frame_def max_contour_single metrics_def round_contour_def
      min_area_def init_state_def py_int_def Let_def)

text \<open>
  C5, amended: for every frame for which a record is appended, the recorded centroid is
  the pair of quotients \<open>m10 / m00\<close> and \<open>m01 / m00\<close> of the selected contour truncated
  towards zero to integers (so less than one pixel away from them) when \<open>m00\<close> is not
  zero, and \<open>(0, 0)\<close> when \<open>m00\<close> is zero.
\<close>

theorem centroid_truncated_quotient:
  assumes "contour_data (snd (process_frame fr ts s)) = contour_data s @ [r]"
  shows "(m00 (max_contour (findContours fr)) \<noteq> 0 \<longrightarrow>
            centroid_x r = py_int (m10 (max_contour (findContours fr)) / m00 (max_contour (findContours fr)))
          \<and> centroid_y r = py_int (m01 (max_contour (findContours fr)) / m00 (max_contour (findContours fr)))
          \<and> \<bar>real_of_int (centroid_x r) - m10 (max_contour (findContours fr)) / m00 (max_contour (findContours fr))\<bar> < 1
          \<and> \<bar>real_of_int (centroid_y r) - m01 (max_contour (findContours fr)) / m00 (max_contour (findContours fr))\<bar> < 1)
       \<and> (m00 (max_contour (findContours fr)) = 0 \<longrightarrow> centroid_x r = 0 \<and> centroid_y r = 0)"
proof -
  let ?c = "max_contour (findContours fr)"
  from record_produced [OF assms] have m: "metrics ?c ts = Inr r" by simp
  then have h: "snd (snd (snd (boundingRect ?c))) \<noteq> 0"
    using metrics_Inl [of ?c ts] by auto
  from metrics_Inr [OF h, of ts] m
  have "centroid_x r = (if m00 ?c \<noteq> 0 then py_int (m10 ?c / m00 ?c) else 0)"
    and "centroid_y r = (if m00 ?c \<noteq> 0 then py_int (m01 ?c / m00 ?c) else 0)"
    by auto
  then show ?thesis by (simp add: py_int_close)
qed

theorem centroid_truncated_quotient_witness:
  "centroid_x (hd (contour_data (snd (process_frame round_frame start_time init_state)))) = 100
   \<and> centroid_y (hd (contour_data (snd (process_frame round_frame start_time init_state)))) = 100
   \<and> m10 round_contour / m00 round_contour = 201 / 2"
proof -
  let ?r = "hd (contour_data (snd (process_frame round_frame start_time init_state)))"
  have p: "contour_data (snd (process_frame round_frame start_time init_state))
             = contour_data init_state @ [?r]"
    by (simp add: process_frame_def round_frame_def max_contour_single metrics_def
        round_contour_def min_area_def init_state_def Let_def)
  have c: "max_contour (findContours round_frame) = round_contour"
    by (simp add: round_frame_def max_contour_single)
  from centroid_truncated_quotient [OF p] show ?thesis
    by (simp add: c round_contour_def py_int_def)
qed

subsection \<open>Detection and skipping\<close>

text \<open>
  C6. For every frame, a record is appended if and only if the segmentation finds at
  least one external contour and the largest contour area is at least \<open>min_area\<close>;
  otherwise nothing is appended, \<^verbatim>\<open>process_frame\<close> returns the frame as it received it,
  and the loop writes that frame to the overlay video. When a record is appended the
  returned frame carries the overlay. The bounding box of the selected contour is taken
  to have a height other than zero, as OpenCV's \<^verbatim>\<open>boundingRect\<close> gives for every
  non-empty contour (C2 is about height zero).
\<close>

theorem record_iff_detection:
  assumes "findContours fr \<noteq> [] \<longrightarrow> snd (snd (snd (boundingRect (max_contour (findContours fr))))) \<noteq> 0"
  shows "((\<exists>r. contour_data (snd (process_frame fr ts s)) = contour_data s @ [r])
            \<longleftrightarrow> findContours fr \<noteq> [] \<and> min_area \<le> Max (contourArea ` set (findContours fr)))
       \<and> (\<not> (findContours fr \<noteq> [] \<and> min_area \<le> Max (contourArea ` set (findContours fr)))
            \<longrightarrow> process_frame fr ts s = (Inr fr, s)
              \<and> (\<forall>period idx rest. frame_timestamp period idx = Inr ts \<longrightarrow>
                   frame_loop period (fr # rest) idx s
                     = frame_loop period rest (idx + 1) (s\<lparr>out := out s @ [fr]\<rparr>)))
       \<and> (findContours fr \<noteq> [] \<and> min_area \<le> Max (contourArea ` set (findContours fr))
            \<longrightarrow> (\<exists>r. timestamp r = ts
                   \<and> process_frame fr ts s =
                       (Inr (annotate fr (max_contour (findContours fr)) r),
                        s\<lparr>all_contours := all_contours s @ [(max_contour (findContours fr), ts)],
                          contour_data := contour_data s @ [r]\<rparr>))
              \<and> fst (process_frame fr ts s) \<noteq> Inr fr)"
proof (cases "findContours fr \<noteq> [] \<and> min_area \<le> Max (contourArea ` set (findContours fr))")
  case True
  let ?c = "max_contour (findContours fr)"
  from True have ne: "findContours fr \<noteq> []" and ar: "min_area \<le> contourArea ?c"
    by (simp_all add: max_contour_area)
  from assms ne have h: "snd (snd (snd (boundingRect ?c))) \<noteq> 0" by simp
  then obtain r where r: "metrics ?c ts = Inr r" and t: "timestamp r = ts"
    using metrics_Inr [of ?c ts] by blast
  note pf = process_frame_record [OF ne ar r, of s]
  from t pf have "\<exists>r. timestamp r = ts \<and> process_frame fr ts s =
      (Inr (annotate fr ?c r),
       s\<lparr>all_contours := all_contours s @ [(?c, ts)], contour_data := contour_data s @ [r]\<rparr>)"
    by blast
  moreover have "\<exists>r. contour_data (snd (process_frame fr ts s)) = contour_data s @ [r]"
    using pf by simp
  moreover have "fst (process_frame fr ts s) \<noteq> Inr fr"
    using pf annotate_neq [of fr ?c r] by simp
  ultimately show ?thesis using True by blast
next
  case False
  have sk: "findContours fr = [] \<or> contourArea (max_contour (findContours fr)) < min_area"
  proof (cases "findContours fr = []")
    case True
    then show ?thesis by simp
  next
    case ne: False
    from False ne have "\<not> min_area \<le> Max (contourArea ` set (findContours fr))" by blast
    then have "\<not> min_area \<le> contourArea (max_contour (findContours fr))"
      unfolding max_contour_area [OF ne] .
    then show ?thesis by simp
  qed
  have pf: "process_frame fr ts s = (Inr fr, s)" by (rule process_frame_skip [OF sk])
  show ?thesis using False pf by (simp add: frame_skip_def)
qed

theorem record_iff_detection_witness:
  "(\<exists>r. contour_data (snd (process_frame round_frame start_time init_state))
          = contour_data init_state @ [r])
   \<and> findContours round_frame \<noteq> []
   \<and> min_area \<le> Max (contourArea ` set (findContours round_frame))
   \<and> process_frame empty_frame start_time init_state = (Inr empty_frame, init_state)"
proof -
  have h: "findContours round_frame \<noteq> [] \<longrightarrow>
      snd (snd (snd (boundingRect (max_contour (findContours round_frame))))) \<noteq> 0"
    by (simp add: round_frame_def max_contour_single round_contour_def)
  have d: "findContours round_frame \<noteq> []
      \<and> min_area \<le> Max (contourArea ` set (findContours round_frame))"
    by (simp add: round_frame_def round_contour_def min_area_def)
  have e: "findContours empty_frame \<noteq> [] \<longrightarrow>
      snd (snd (snd (boundingRect (max_contour (findContours empty_frame))))) \<noteq> 0"
    and n: "\<not> (findContours empty_frame \<noteq> []
      \<and> min_area \<le> Max (contourArea ` set (findContours empty_frame)))"
    by (simp_all add: empty_frame_def)
  from record_iff_detection [OF h, of start_time init_state] d
    record_iff_detection [OF e, of start_time init_state] n
  show ?thesis by blast
qed

subsection \<open>Solidity\<close>

text \<open>
  The recorded solidity of a contour with a convex hull of positive area is the quotient of
  the contour area by the hull area, not clamped. It is at least 0 by the area filter, and
  it is at most 1 exactly when OpenCV reports a hull area that is at least the contour
  area; the hull and both areas are computed by OpenCV.
\<close>

lemma solidity_quotient:
  assumes "contour_data (snd (process_frame fr ts s)) = contour_data s @ [r]"
    and "0 < hullArea (max_contour (findContours fr))"
  shows "solidity r = contourArea (max_contour (findContours fr)) / hullArea (max_contour (findContours fr))"
    and "0 \<le> solidity r"
    and "solidity r \<le> 1 \<longleftrightarrow>
           contourArea (max_contour (findContours fr)) \<le> hullArea (max_contour (findContours fr))"
proof -
  let ?c = "max_contour (findContours fr)"
  from record_produced [OF assms(1)]
  have m: "metrics ?c ts = Inr r" and a: "min_area \<le> contourArea ?c" by simp_all
  then have h: "snd (snd (snd (boundingRect ?c))) \<noteq> 0"
    using metrics_Inl [of ?c ts] by auto
  from metrics_Inr [OF h, of ts] m assms(2)
  show s: "solidity r = contourArea ?c / hullArea ?c" by auto
  from a have "0 \<le> contourArea ?c" by (simp add: min_area_def)
  with assms(2) s show "0 \<le> solidity r" by simp
  from assms(2) s show "solidity r \<le> 1 \<longleftrightarrow> contourArea ?c \<le> hullArea ?c" by simp
qed

subsection \<open>Timestamps of the accumulated records\<close>




section \<open>Properties of the cleaner\<close>

subsection \<open>The smoothing window\<close>

lemma sg_window_long: "11 \<le> n \<Longrightarrow> sg_window n = 10"
  by (simp add: sg_window_def window_length_def Let_def)

text \<open>
  C3. The window should be odd and never longer than the series. The configured
  \<open>window_length\<close> is 10, although its comment in the source says that it must be odd,
  and a series of 11 points or more gets the even window 10 (\<open>sg_window_long\<close>). For a
  series of 2 or 4 points the window \<^verbatim>\<open>n_points | 1\<close> is 3 or 5, longer than the series,
  and \<^verbatim>\<open>savgol_filter\<close> raises (\<open>clean_metric_short_series_raises\<close>). For the other
  lengths from 1 the window fits and the order is below it (\<open>sg_window_fits\<close>).
\<close>

theorem window_even_or_too_long:
  "sg_window 11 = 10 \<and> sg_window 2 = 3 \<and> sg_window 4 = 5"
  by (simp add: sg_window_def window_length_def)

subsection \<open>Gap filling\<close>

lemma next_valid_gap: "next_valid (replicate k None @ Some b # xs) = Some (k, b)"
  by (induction k) simp_all

lemma next_valid_none: "next_valid (replicate k None) = None"
  by (induction k) simp_all

lemma interpolate_from_gap:
  "interpolate_from (Some (d, a)) (replicate k None @ Some b # xs)
     = map (\<lambda>j. Some ((b - a) / real (d + k) * real j + a)) [d..<d + k]
       @ Some b # interpolate_from (Some (1, b)) xs"
proof (induction k arbitrary: d)
  case 0
  show ?case by simp
next
  case (Suc k)
  have "[d..<d + Suc k] = d # [Suc d..<Suc d + k]" by (simp add: upt_conv_Cons)
  with Suc [of "Suc d"] show ?case by (simp add: next_valid_gap add.commute)
qed

lemma interpolate_from_trailing:
  "interpolate_from (Some (d, a)) (replicate k None) = replicate k (Some a)"
  by (induction k arbitrary: d) (simp_all add: next_valid_none)

lemma interpolate_from_leading:
  "interpolate_from None (replicate k None @ xs) = replicate k None @ interpolate_from None xs"
  by (induction k) simp_all

lemma bfill_leading: "bfill (replicate k None @ Some a # xs) = replicate k (Some a) @ Some a # bfill xs"
  by (induction k) (simp_all add: replicate_app_Cons_same)

lemma bfill_present: "bfill (map Some ys @ xs) = map Some ys @ bfill xs"
  by (induction ys) simp_all

lemma ffill_from_present: "ffill_from p (map Some ys @ xs) = map Some ys @ ffill_from (if ys = [] then p else Some (last ys)) xs"
  by (induction ys arbitrary: p) simp_all

lemma gap_fill_Some:
  "gap_fill (Some a # xs) = Some a # ffill_from (Some a) (bfill (interpolate_from (Some (1, a)) xs))"
  by (simp add: gap_fill_def interpolate_def ffill_def)

text \<open>
  C8. Gap filling interpolates a run of missing values between two present values \<open>a\<close>
  and \<open>b\<close> linearly (the \<open>j\<close>-th of \<open>k\<close> missing values becomes
  \<open>a + (b - a) / (k + 1) * j\<close>), gives a leading run the first present value and a
  trailing run the last present value; \<open>[1, NaN, NaN, 4]\<close> becomes \<open>[1, 2, 3, 4]\<close>.
\<close>

theorem gap_fill_linear:
  "gap_fill [Some 1, None, None, Some 4] = [Some 1, Some 2, Some 3, Some 4]
   \<and> gap_fill (Some a # replicate k None @ Some b # xs)
       = Some a # map (\<lambda>j. Some ((b - a) / real (k + 1) * real j + a)) [1..<k + 1]
         @ gap_fill (Some b # xs)
   \<and> gap_fill (replicate k None @ Some a # xs) = replicate k (Some a) @ gap_fill (Some a # xs)
   \<and> gap_fill (Some a # replicate k None) = replicate (k + 1) (Some a)"
proof (intro conjI)
  show "gap_fill [Some 1, None, None, Some 4] = [Some 1, Some 2, Some 3, Some 4]"
    by (simp add: gap_fill_def interpolate_def ffill_def)
next
  let ?f = "\<lambda>j. (b - a) / real (k + 1) * real j + a"
  let ?vals = "map ?f [1..<k + 1]"
  let ?R = "interpolate_from (Some (1, b)) xs"
  have v: "map (\<lambda>j. Some (?f j)) [1..<k + 1] = map Some ?vals"
    by (simp only: map_map comp_def)
  have i: "interpolate_from (Some (1, a)) (replicate k None @ Some b # xs)
          = map Some ?vals @ Some b # ?R"
    using interpolate_from_gap [of 1 a k b xs] by (simp only: v add.commute [of 1 k])
  have "gap_fill (Some a # replicate k None @ Some b # xs)
          = Some a # ffill_from (Some a) (bfill (map Some ?vals @ Some b # ?R))"
    by (simp only: gap_fill_Some i)
  also have "bfill (map Some ?vals @ Some b # ?R) = map Some ?vals @ Some b # bfill ?R"
    by (simp only: bfill_present bfill.simps)
  also have "ffill_from (Some a) (map Some ?vals @ Some b # bfill ?R)
               = map Some ?vals @ Some b # ffill_from (Some b) (bfill ?R)"
    by (simp only: ffill_from_present ffill_from.simps)
  finally show "gap_fill (Some a # replicate k None @ Some b # xs)
       = Some a # map (\<lambda>j. Some ((b - a) / real (k + 1) * real j + a)) [1..<k + 1]
         @ gap_fill (Some b # xs)"
    by (simp only: v gap_fill_Some append_Cons)
next
  have "ffill (replicate k (Some a) @ ys) = replicate k (Some a) @ ffill_from (if k = 0 then None else Some a) ys" for ys
    using ffill_from_present [of None "replicate k a" ys] by (simp add: ffill_def)
  then show "gap_fill (replicate k None @ Some a # xs) = replicate k (Some a) @ gap_fill (Some a # xs)"
    by (simp add: gap_fill_def interpolate_def interpolate_from_leading bfill_leading ffill_def)
next
  have "bfill (replicate k (Some a)) = replicate k (Some a)"
    using bfill_present [of "replicate k a" "[]"] by simp
  moreover have "ffill_from p (replicate k (Some a)) = replicate k (Some a)" for p
    using ffill_from_present [of p "replicate k a" "[]"] by simp
  ultimately show "gap_fill (Some a # replicate k None) = replicate (k + 1) (Some a)"
    by (simp add: gap_fill_Some interpolate_from_trailing)
qed

lemma next_valid_in: "next_valid xs = Some (e, b) \<Longrightarrow> Some b \<in> set xs"
  by (induction xs arbitrary: e rule: next_valid.induct) auto

lemma interpolate_from_length [simp]: "length (interpolate_from p xs) = length xs"
  by (induction p xs rule: interpolate_from.induct) simp_all

lemma bfill_length [simp]: "length (bfill xs) = length xs"
  by (induction xs rule: bfill.induct) (auto split: list.splits)

lemma ffill_from_length [simp]: "length (ffill_from p xs) = length xs"
  by (induction p xs rule: ffill_from.induct) simp_all

lemma gap_fill_length [simp]: "length (gap_fill xs) = length xs"
  by (simp add: gap_fill_def interpolate_def ffill_def)

lemma convex_between:
  fixes a b lo hi :: real
  assumes "lo \<le> a" "a \<le> hi" "lo \<le> b" "b \<le> hi"
  shows "lo \<le> (b - a) / real (d + e + 1) * real d + a"
    and "(b - a) / real (d + e + 1) * real d + a \<le> hi"
proof -
  define t where "t = real d / real (d + e + 1)"
  have t: "0 \<le> t" "t \<le> 1" by (simp_all add: t_def)
  have "(b - a) / real (d + e + 1) * real d = t * (b - a)"
    by (simp add: t_def)
  then have eq: "(b - a) / real (d + e + 1) * real d + a = (1 - t) * a + t * b"
    by (simp only: algebra_simps)
  have "(1 - t) * lo + t * lo \<le> (1 - t) * a + t * b"
    using t assms by (intro add_mono mult_left_mono) simp_all
  then show "lo \<le> (b - a) / real (d + e + 1) * real d + a"
    unfolding eq by (simp add: algebra_simps)
  have "(1 - t) * a + t * b \<le> (1 - t) * hi + t * hi"
    using t assms by (intro add_mono mult_left_mono) simp_all
  then show "(b - a) / real (d + e + 1) * real d + a \<le> hi"
    unfolding eq by (simp add: algebra_simps)
qed

lemma interpolate_from_within:
  assumes "\<forall>x \<in> set xs. in_range lo hi x" and "in_range lo hi (map_option snd p)"
  shows "\<forall>x \<in> set (interpolate_from p xs). in_range lo hi x"
  using assms
proof (induction p xs rule: interpolate_from.induct)
  case (4 d a xs)
  have "in_range lo hi (case next_valid xs of None \<Rightarrow> Some a
          | Some (e, b) \<Rightarrow> Some ((b - a) / real (d + e + 1) * real d + a))"
  proof (cases "next_valid xs")
    case None
    with 4 show ?thesis by simp
  next
    case (Some eb)
    obtain e b where eb: "eb = (e, b)" by (cases eb)
    from next_valid_in [of xs e b] Some eb 4(2) have "in_range lo hi (Some b)" by auto
    with 4(3) have r: "lo \<le> a" "a \<le> hi" "lo \<le> b" "b \<le> hi"
      by (simp_all add: in_range_def)
    from convex_between [OF r, of d e] show ?thesis
      unfolding Some eb by (simp only: in_range_def option.case prod.case)
  qed
  with 4 show ?case by simp
qed (simp_all add: in_range_def)

lemma bfill_subset: "set (bfill xs) \<subseteq> set xs"
  by (induction xs rule: bfill.induct) (auto split: list.splits)

lemma ffill_from_subset: "set (ffill_from p xs) \<subseteq> insert p (set xs)"
  by (induction p xs rule: ffill_from.induct) auto

lemma gap_fill_within:
  assumes "\<forall>x \<in> set xs. in_range lo hi x"
  shows "\<forall>x \<in> set (gap_fill xs). in_range lo hi x"
proof -
  have "\<forall>x \<in> set (interpolate xs). in_range lo hi x"
    unfolding interpolate_def by (rule interpolate_from_within [OF assms]) (simp add: in_range_def)
  moreover have "set (gap_fill xs) \<subseteq> insert None (set (interpolate xs))"
    using ffill_from_subset [of None "bfill (interpolate xs)"] bfill_subset [of "interpolate xs"]
    by (auto simp: gap_fill_def ffill_def)
  ultimately show ?thesis by (auto simp: in_range_def)
qed

lemma interpolate_from_keeps: "Some y \<in> set xs \<Longrightarrow> Some y \<in> set (interpolate_from p xs)"
  by (induction p xs rule: interpolate_from.induct) auto

lemma bfill_head: "Some y \<in> set xs \<Longrightarrow> \<exists>z zs. bfill xs = Some z # zs"
  by (induction xs rule: bfill.induct) (auto split: list.splits)

lemma ffill_from_Some: "None \<notin> set (ffill_from (Some a) xs)"
  by (induction "Some a" xs arbitrary: a rule: ffill_from.induct) auto

lemma gap_fill_no_None:
  assumes "Some y \<in> set xs"
  shows "None \<notin> set (gap_fill xs)"
proof -
  from assms have "Some y \<in> set (interpolate xs)"
    unfolding interpolate_def by (rule interpolate_from_keeps)
  from bfill_head [OF this] obtain z zs where "bfill (interpolate xs) = Some z # zs" by blast
  then show ?thesis by (simp add: gap_fill_def ffill_def ffill_from_Some)
qed

lemma gap_fill_constant:
  assumes "\<forall>x \<in> set xs. x = None \<or> x = Some v" and "Some v \<in> set xs"
  shows "gap_fill xs = replicate (length xs) (Some v)"
proof -
  from assms(1) have "\<forall>x \<in> set xs. in_range v v x" by (auto simp: in_range_def)
  note w = gap_fill_within [OF this] and nn = gap_fill_no_None [OF assms(2)]
  have "\<forall>x \<in> set (gap_fill xs). x = Some v"
  proof
    fix x assume x: "x \<in> set (gap_fill xs)"
    with nn obtain y where y: "x = Some y" by (cases x) auto
    from x w have "in_range v v x" by blast
    with y show "x = Some v" by (simp add: in_range_def)
  qed
  then have "replicate (length (gap_fill xs)) (Some v) = gap_fill xs"
    by (intro replicate_length_same) 
  then show ?thesis by simp
qed

subsection \<open>Outlier removal\<close>

lemma valid_values_Nil [simp]: "valid_values [] = []"
  by (simp add: valid_values_def)

lemma valid_values_Some [simp]: "valid_values (Some x # xs) = x # valid_values xs"
  by (simp add: valid_values_def)

lemma valid_values_None [simp]: "valid_values (None # xs) = valid_values xs"
  by (simp add: valid_values_def)

lemma valid_values_append [simp]: "valid_values (xs @ ys) = valid_values xs @ valid_values ys"
  by (simp add: valid_values_def map_filter_def)

lemma valid_values_replicate [simp]: "valid_values (replicate n (Some x)) = replicate n x"
  by (induction n) simp_all


lemma map_zip_same: "map h (zip xs (map f xs)) = map (\<lambda>x. h (x, f x)) xs"
  by (induction xs) simp_all

lemma outlier_mask_map:
  "outlier_mask xs =
     map (\<lambda>x. if fgt (fabs (np_div (np_sub x (series_mean xs)) (series_std xs))) z_thresh
               then None else x) xs"
  by (simp add: outlier_mask_def mask_where_def z_scores_def map_zip_same)

lemma np_div_None [simp]: "np_div None s = NaN"
  by (simp add: np_div_def)

lemma np_sub_None [simp]: "np_sub None m = None" "np_sub x None = None"
  by (simp_all add: np_sub_def split: option.splits)





lemma spike_algebra1:
  fixes n c :: real
  assumes "0 < n"
  shows "(n - 1) * (c / n)\<^sup>2 + (c / n - c)\<^sup>2 = c\<^sup>2 * (n - 1) / n"
proof -
  have "c / n - c = - (c * (n - 1) / n)" using assms by (simp add: field_simps)
  then have "(n - 1) * (c / n)\<^sup>2 + (c / n - c)\<^sup>2 = (n - 1) * (c / n)\<^sup>2 + (c * (n - 1) / n)\<^sup>2"
    by simp
  also have "\<dots> = (n - 1) * (c\<^sup>2 / n\<^sup>2) + c\<^sup>2 * (n - 1)\<^sup>2 / n\<^sup>2"
    by (simp only: power_divide power_mult_distrib)
  also have "\<dots> = c\<^sup>2 * (n - 1) * (1 + (n - 1)) / n\<^sup>2"
    by (simp add: power2_eq_square algebra_simps add_divide_distrib diff_divide_distrib)
  also have "\<dots> = c\<^sup>2 * (n - 1) / n"
    using assms by (simp add: power2_eq_square)
  finally show ?thesis .
qed

lemma spike_algebra2:
  fixes n c V :: real
  assumes "2 \<le> n" and "0 < c" and "V = c\<^sup>2 * (n - 1) / n\<^sup>2"
  shows "9 * V < (c * (n - 1) / n)\<^sup>2 \<longleftrightarrow> 9 < n - 1"
    and "\<not> 9 * V < (c / n)\<^sup>2"
proof -
  have c2: "0 < c\<^sup>2" and n2: "0 < n\<^sup>2" using assms by simp_all
  have "9 * V = c\<^sup>2 * (9 * (n - 1)) / n\<^sup>2" by (simp add: assms(3))
  moreover have "(c * (n - 1) / n)\<^sup>2 = c\<^sup>2 * ((n - 1) * (n - 1)) / n\<^sup>2"
    by (simp only: power_divide power_mult_distrib power2_eq_square [of "n - 1"])
  moreover have "c\<^sup>2 * (9 * (n - 1)) / n\<^sup>2 < c\<^sup>2 * ((n - 1) * (n - 1)) / n\<^sup>2 \<longleftrightarrow> 9 * (n - 1) < (n - 1) * (n - 1)"
    using c2 n2 by (simp only: divide_less_cancel mult_less_cancel_left_pos) auto
  moreover have "9 * (n - 1) < (n - 1) * (n - 1) \<longleftrightarrow> 9 < n - 1"
  proof (rule mult_less_cancel_right_pos)
    show "0 < n - 1" using assms(1) by simp
  qed
  ultimately show "9 * V < (c * (n - 1) / n)\<^sup>2 \<longleftrightarrow> 9 < n - 1" by simp
  have "(c / n)\<^sup>2 = c\<^sup>2 * 1 / n\<^sup>2" by (simp add: power_divide)
  moreover have "c\<^sup>2 * 1 / n\<^sup>2 \<le> c\<^sup>2 * (9 * (n - 1)) / n\<^sup>2"
  proof (rule divide_right_mono)
    show "c\<^sup>2 * 1 \<le> c\<^sup>2 * (9 * (n - 1))"
    proof (rule mult_left_mono)
      show "0 \<le> c\<^sup>2" by simp
      show "1 \<le> 9 * (n - 1)" using assms(1) by simp
    qed
    show "0 \<le> n\<^sup>2" by simp
  qed
  ultimately show "\<not> 9 * V < (c / n)\<^sup>2" using \<open>9 * V = c\<^sup>2 * (9 * (n - 1)) / n\<^sup>2\<close> by simp
qed

lemma z_test:
  assumes "0 < V"
  shows "fgt (fabs (np_div (np_sub (Some y) (Some m)) (Some (sqrt V)))) z_thresh
           \<longleftrightarrow> 9 * V < (y - m)\<^sup>2"
proof -
  from assms have s: "0 < sqrt V" by simp
  have "fgt (fabs (np_div (np_sub (Some y) (Some m)) (Some (sqrt V)))) z_thresh
          \<longleftrightarrow> 3 < \<bar>y - m\<bar> / sqrt V"
    using s by (simp add: np_sub_def np_div_def z_thresh_def)
  also have "\<dots> \<longleftrightarrow> 3 * sqrt V < \<bar>y - m\<bar>"
    using s by (simp add: pos_less_divide_eq)
  also have "\<dots> \<longleftrightarrow> sqrt (9 * V) < sqrt ((y - m)\<^sup>2)"
    by (simp add: real_sqrt_mult)
  also have "\<dots> \<longleftrightarrow> 9 * V < (y - m)\<^sup>2"
    by (rule real_sqrt_less_iff)
  finally show ?thesis .
qed

lemma spike_stats:
  defines "n \<equiv> \<lambda>a b. real (a + b) + 1"
  shows "series_mean (spike_series a b) = Some (10 + 9990 / n a b)"
    and "series_std (spike_series a b) = Some (sqrt (9990\<^sup>2 * (n a b - 1) / (n a b)\<^sup>2))"
proof -
  let ?vs = "valid_values (spike_series a b)"
  let ?n = "n a b"
  have vs: "?vs = replicate a 10 @ 10000 # replicate b 10"
    by (simp add: spike_series_def)
  have n: "0 < ?n" "real (length ?vs) = ?n" "real a + real b = ?n - 1"
    by (simp_all add: n_def vs)
  have sum: "sum_list ?vs = 10 * (?n - 1) + 10000"
    using n(3) by (simp add: vs sum_list_replicate)
  have avg: "sum_list ?vs / ?n = 10 + 9990 / ?n"
    using n(1) by (simp add: sum field_simps)
  have ne: "?vs \<noteq> []" by (simp add: vs)
  have "series_mean (spike_series a b) = Some (sum_list ?vs / real (length ?vs))"
    using ne by (simp add: series_mean_def Let_def)
  then show "series_mean (spike_series a b) = Some (10 + 9990 / ?n)"
    by (simp only: n(2) avg)
  have "sum_list (map (\<lambda>v. (10 + 9990 / ?n - v)\<^sup>2) ?vs)
          = (real a + real b) * (9990 / ?n)\<^sup>2 + (9990 / ?n - 9990)\<^sup>2"
    by (simp add: vs sum_list_replicate algebra_simps)
  also have "\<dots> = 9990\<^sup>2 * (?n - 1) / ?n"
    by (simp only: n(3) spike_algebra1 [OF n(1)])
  finally have ss: "sum_list (map (\<lambda>v. (10 + 9990 / ?n - v)\<^sup>2) ?vs) = 9990\<^sup>2 * (?n - 1) / ?n" .
  have q: "9990\<^sup>2 * (?n - 1) / ?n / ?n = 9990\<^sup>2 * (?n - 1) / ?n\<^sup>2"
    by (simp add: power2_eq_square)
  have "series_std (spike_series a b)
          = Some (sqrt (sum_list (map (\<lambda>v. (sum_list ?vs / real (length ?vs) - v)\<^sup>2) ?vs)
                         / real (length ?vs)))"
    using ne by (simp add: series_std_def Let_def)
  also have "\<dots> = Some (sqrt (sum_list (map (\<lambda>v. (10 + 9990 / ?n - v)\<^sup>2) ?vs) / ?n))"
    by (simp only: n(2) avg)
  also have "\<dots> = Some (sqrt (9990\<^sup>2 * (?n - 1) / ?n / ?n))"
    by (simp only: ss)
  finally show "series_std (spike_series a b) = Some (sqrt (9990\<^sup>2 * (?n - 1) / ?n\<^sup>2))"
    by (simp only: q)
qed

lemma spike_mask:
  assumes "0 < a + b"
  shows "outlier_mask (spike_series a b)
           = replicate a (Some 10) @ (if 9 < a + b then None else Some 10000) # replicate b (Some 10)"
proof -
  define n where "n = real (a + b) + 1"
  define V where "V = 9990\<^sup>2 * (n - 1) / n\<^sup>2"
  from assms have "Suc 0 \<le> a + b" by linarith
  then have "real (Suc 0) \<le> real (a + b)" by (rule of_nat_mono)
  then have n: "2 \<le> n" by (simp add: n_def)
  then have V: "0 < V" by (simp add: V_def)
  note st = spike_stats [of a b, folded n_def, folded V_def]
  have d10: "10 - (10 + 9990 / n) = - (9990 / n)" by simp
  have d10000: "10000 - (10 + 9990 / n) = 9990 * (n - 1) / n"
    using n by (simp add: field_simps)
  have ten: "\<not> 9 * V < (10 - (10 + 9990 / n))\<^sup>2"
    using spike_algebra2(2) [OF n _ V_def] by (simp only: d10 power2_minus) simp
  have "real 9 < real (a + b) \<longleftrightarrow> 9 < a + b" by (rule of_nat_less_iff)
  then have "9 < n - 1 \<longleftrightarrow> 9 < a + b" by (simp add: n_def)
  then have spike: "9 * V < (10000 - (10 + 9990 / n))\<^sup>2 \<longleftrightarrow> 9 < a + b"
    using spike_algebra2(1) [OF n _ V_def] by (simp only: d10000)
  let ?test = "\<lambda>x. fgt (fabs (np_div (np_sub x (Some (10 + 9990 / n))) (Some (sqrt V)))) z_thresh"
  have t10: "?test (Some 10) \<longleftrightarrow> False"
    by (simp only: z_test [OF V] ten)
  have t10000: "?test (Some 10000) \<longleftrightarrow> 9 < a + b"
    by (simp only: z_test [OF V] spike)
  show ?thesis
    unfolding outlier_mask_map st
    by (simp only: spike_series_def map_append map_replicate list.map t10 t10000 if_False)
qed

text \<open>
  C4, as stated: in every series of the constant 10 with one injected 10000 the injected
  point is masked. With four samples of 10 around it the standardized deviation of the
  injected point is exactly 2 (mean 2008, standard deviation 3996), not above 3, and the
  series is returned unchanged.
\<close>

theorem spike_not_masked_in_short_series:
  "outlier_mask [Some 10, Some 10, Some 10000, Some 10, Some 10]
     = [Some 10, Some 10, Some 10000, Some 10, Some 10]"
proof -
  have "spike_series 2 2 = [Some 10, Some 10, Some 10000, Some 10, Some 10]"
    by (simp add: spike_series_def numeral_2_eq_2)
  with spike_mask [of 2 2] show ?thesis by (simp add: numeral_2_eq_2)
qed

text \<open>
  C4, amended: in a series of at least 10 samples of value 10 and one injected 10000, at
  any position, the outlier stage masks the injected point and no other, and gap filling
  replaces it by 10, the value of its neighbours. (The standardized deviation of the
  injected point among \<open>n\<close> samples is the root of \<open>n - 1\<close>, above 3 from 11 samples on.)
\<close>

theorem spike_masked_and_replaced:
  assumes "10 \<le> a + b"
  shows "outlier_mask (spike_series a b) = replicate a (Some 10) @ None # replicate b (Some 10)
       \<and> gap_fill (outlier_mask (spike_series a b)) = replicate (a + b + 1) (Some 10)"
proof -
  from assms have p: "0 < a + b" and m: "9 < a + b" by linarith+
  from spike_mask [OF p] m
  have 1: "outlier_mask (spike_series a b) = replicate a (Some 10) @ None # replicate b (Some 10)"
    by simp
  have "Some 10 \<in> set (replicate a (Some 10) @ None # replicate b (Some (10::real)))"
    using p by auto
  moreover have "\<forall>x \<in> set (replicate a (Some 10) @ None # replicate b (Some (10::real))).
      x = None \<or> x = Some 10"
    by auto
  ultimately have "gap_fill (replicate a (Some 10) @ None # replicate b (Some 10))
      = replicate (length (replicate a (Some 10) @ None # replicate b (Some (10::real)))) (Some 10)"
    by (intro gap_fill_constant)
  with 1 show ?thesis by simp
qed

theorem spike_masked_and_replaced_witness:
  "outlier_mask (spike_series 5 5) = replicate 5 (Some 10) @ None # replicate 5 (Some 10)
   \<and> gap_fill (outlier_mask (spike_series 5 5)) = replicate 11 (Some 10)"
proof -
  have e: "(5::nat) + 5 + 1 = 11" by simp
  have "(10::nat) \<le> 5 + 5" by simp
  from spike_masked_and_replaced [OF this] show ?thesis unfolding e .
qed

subsection \<open>The cleaned column\<close>

lemma outlier_mask_length [simp]: "length (outlier_mask xs) = length xs"
  by (simp add: outlier_mask_map)












lemma index_column [simp]: "index (column df name) = index df"
  by (simp add: index_def column_def comp_def case_prod_unfold)

lemma length_column [simp]: "length (column df name) = length df"
  by (simp add: column_def)

lemma length_centroid_mask [simp]: "length (centroid_mask df) = length df"
  by (simp add: centroid_mask_def)





text \<open>A series of 0, 2 or 4 points gets a window longer than itself, and the filter raises.\<close>

lemma clean_metric_short_series_raises:
  assumes "length (metric_series df metric) \<in> {0, 2, 4}"
  shows "clean_metric sg df metric = Inl ValueError"
proof -
  let ?n = "int (length (gap_fill (outlier_mask (map snd (metric_series df metric)))))"
  from assms have "?n = 0 \<or> ?n = 2 \<or> ?n = 4" by auto
  then have "?n < sg_window ?n"
    by (auto simp: sg_window_def window_length_def)
  then show ?thesis
    unfolding clean_metric_def Let_def by (simp add: savgol_filter_def)
qed




end
